theory Spec2Isabelle
  imports Complex_Main "HOL-Library.FSet" "HOL-Library.AList"
begin

section \<open>PageRank: the transition model, the sampling estimator, the iterative estimator\<close>

text \<open>
  A shallow embedding of \<^verbatim>\<open>src/pagerank/pagerank.py\<close>.

  \<^item> A corpus is a Python \<^verbatim>\<open>dict\<close> from page names to \<^verbatim>\<open>set\<close>s of page names. It is
    modelled as an association list in the dictionary's iteration order, whose values are
    finite sets; a Python dictionary has no duplicate keys, which is the predicate
    \<open>dict_keys_ok\<close> below. The dictionaries the functions build (distributions, counters,
    ranks) are association lists in the same way.
  \<^item> Python's \<^verbatim>\<open>float\<close> is modelled by \<^typ>\<open>real\<close>: arithmetic is exact, rounding is not
    represented. Python's \<^verbatim>\<open>int\<close> is \<^typ>\<open>int\<close>. Whether the loop of
    \<^verbatim>\<open>iterate_pagerank\<close> ends depends on the rounding, so that function has a second
    model (suffix \<open>_f64\<close>) in which every arithmetic operation is rounded to a double.
  \<^item> Every exception the code can raise is a value \<open>Inl e\<close> of the result type.
  \<^item> The \<^verbatim>\<open>while True\<close> loop of \<^verbatim>\<open>iterate_pagerank\<close> is a partial function into
    \<open>option\<close>: \<open>None\<close> stands for a run that never leaves the loop.
\<close>

subsection \<open>Data model\<close>

datatype error = KeyError | IndexError | ZeroDivisionError | ValueError

type_synonym 'n corpus = "('n \<times> 'n fset) list"

type_synonym 'n ranking = "('n \<times> real) list"

text \<open>\<^verbatim>\<open>d[k]\<close>: the value stored under \<open>k\<close>, or \<^verbatim>\<open>KeyError\<close>.\<close>

definition dict_get :: "('k \<times> 'v) list \<Rightarrow> 'k \<Rightarrow> error + 'v" where
  "dict_get m k = (case map_of m k of None \<Rightarrow> Inl KeyError | Some v \<Rightarrow> Inr v)"

text \<open>A Python dictionary holds each key once.\<close>

definition dict_keys_ok :: "('k \<times> 'v) list \<Rightarrow> bool" where
  "dict_keys_ok m = distinct (map fst m)"

text \<open>
  The invariants the graph model is given with: every listed neighbour is itself a key,
  and no page links to itself (\<^verbatim>\<open>crawl\<close> establishes both).
\<close>

definition graph_invariants :: "'n corpus \<Rightarrow> bool" where
  "graph_invariants corpus =
     (dict_keys_ok corpus \<and>
      list_all (\<lambda>(page, links). fset links \<subseteq> set (map fst corpus) \<and> page |\<notin>| links) corpus)"

subsection \<open>\<^verbatim>\<open>transition_model\<close>\<close>

text \<open>
  \<^verbatim>\<open>
  number_pgs = len(corpus)
  probability_distribution = {}
  lnk_prob = damping_factor / len(corpus[page]) if len(corpus[page]) > 0 else 0
  for p in corpus:
      rndm_prob = (1 - damping_factor) / number_pgs
      if p in corpus[page]:
          sum_prob = lnk_prob
      else:
          sum_prob = 0
      sum_prob += rndm_prob
      probability_distribution[p] = sum_prob
  return probability_distribution
  \<close>
  \<^verbatim>\<open>corpus[page]\<close> raises \<^verbatim>\<open>KeyError\<close> when \<open>page\<close> is not a key, before the loop is
  entered. Inside the loop the corpus has at least one key, so the division by
  \<^verbatim>\<open>number_pgs\<close> cannot fail. The loop stores one entry for each key of the corpus, in
  the order of the keys.
\<close>

definition transition_model :: "'n corpus \<Rightarrow> 'n \<Rightarrow> real \<Rightarrow> error + 'n ranking" where
  "transition_model corpus page damping_factor =
     (case dict_get corpus page of
        Inl e \<Rightarrow> Inl e
      | Inr links \<Rightarrow>
          let number_pgs = length corpus;
              lnk_prob = (if fcard links > 0 then damping_factor / real (fcard links) else 0)
          in Inr (map (\<lambda>(p, _). (p, (if p |\<in>| links then lnk_prob else 0)
                                       + (1 - damping_factor) / real number_pgs)) corpus))"

text \<open>\<^verbatim>\<open>sum(d.values())\<close> for a dictionary of numbers.\<close>

definition dict_total :: "('k \<times> 'v::monoid_add) list \<Rightarrow> 'v" where
  "dict_total m = sum_list (map snd m)"

subsection \<open>The \<^verbatim>\<open>random\<close> module\<close>

text \<open>
  The source of randomness is a parameter: \<open>rnd k\<close> is the \<open>k\<close>-th variate drawn, a
  number that the library takes from \<open>[0, 1)\<close>.

  \<^verbatim>\<open>random.choice(seq)\<close> raises \<^verbatim>\<open>IndexError\<close> on an empty sequence and returns one of its
  elements otherwise.
\<close>

definition choice :: "real \<Rightarrow> 'a list \<Rightarrow> error + 'a" where
  "choice u seq =
     (if seq = [] then Inl IndexError
      else Inr (seq ! (nat \<lfloor>u * real (length seq)\<rfloor> mod length seq)))"

text \<open>\<^verbatim>\<open>itertools.accumulate\<close>: the running sums.\<close>

fun accumulate :: "real \<Rightarrow> real list \<Rightarrow> real list" where
  "accumulate acc [] = []"
| "accumulate acc (w # ws) = (acc + w) # accumulate (acc + w) ws"

text \<open>
  \<^verbatim>\<open>bisect.bisect(a, x, lo, hi)\<close>:
  \<^verbatim>\<open>
  while lo < hi:
      mid = (lo + hi) // 2
      if x < a[mid]: hi = mid
      else: lo = mid + 1
  return lo
  \<close>
\<close>

function bisect :: "real list \<Rightarrow> real \<Rightarrow> nat \<Rightarrow> nat \<Rightarrow> nat" where
  "bisect a x lo hi =
     (if lo < hi
      then (let mid = (lo + hi) div 2
            in if x < a ! mid then bisect a x lo mid else bisect a x (mid + 1) hi)
      else lo)"
  by pat_completeness auto
termination
  by (relation "measure (\<lambda>(a, x, lo, hi). hi - lo)") auto

declare bisect.simps [simp del]

text \<open>
  \<^verbatim>\<open>random.choices(population, weights)[0]\<close>: the cumulative weights are built, a total that
  is not positive raises \<^verbatim>\<open>ValueError\<close>, and the element is found by bisection of the
  cumulative weights at \<open>u * total\<close>, between \<open>0\<close> and \<open>n - 1\<close>.
\<close>

definition choices :: "real \<Rightarrow> 'a list \<Rightarrow> real list \<Rightarrow> error + 'a" where
  "choices u population weights =
     (let cum_weights = accumulate 0 weights;
          n = length population
      in if length cum_weights \<noteq> n then Inl ValueError
         else if cum_weights = [] then Inl IndexError
         else (let total = last cum_weights
               in if total \<le> 0 then Inl ValueError
                  else Inr (population ! bisect cum_weights (u * total) 0 (n - 1))))"

subsection \<open>\<^verbatim>\<open>sample_pagerank\<close>\<close>

text \<open>\<^verbatim>\<open>Pge_Rnk[current_page] += 1\<close>\<close>

definition dict_incr :: "('k \<times> int) list \<Rightarrow> 'k \<Rightarrow> error + ('k \<times> int) list" where
  "dict_incr m k =
     (case dict_get m k of Inl e \<Rightarrow> Inl e | Inr v \<Rightarrow> Inr (AList.update k (v + 1) m))"

text \<open>
  The body of \<^verbatim>\<open>for _ in range(n)\<close>, run \<open>k\<close> more times; \<open>i\<close> counts the variates already
  drawn.
  \<^verbatim>\<open>
  Pge_Rnk[current_page] += 1
  probabilities = transition_model(corpus, current_page, damping_factor)
  current_page = random.choices(list(probabilities.keys()),
                                weights=probabilities.values())[0]
  \<close>
\<close>

fun sample_loop ::
  "'n corpus \<Rightarrow> real \<Rightarrow> (nat \<Rightarrow> real) \<Rightarrow> nat \<Rightarrow> nat \<Rightarrow> ('n \<times> int) list \<Rightarrow> 'n
     \<Rightarrow> error + ('n \<times> int) list" where
  "sample_loop corpus damping_factor rnd 0 i Pge_Rnk current_page = Inr Pge_Rnk"
| "sample_loop corpus damping_factor rnd (Suc k) i Pge_Rnk current_page =
     (case dict_incr Pge_Rnk current_page of
        Inl e \<Rightarrow> Inl e
      | Inr Pge_Rnk' \<Rightarrow>
          (case transition_model corpus current_page damping_factor of
             Inl e \<Rightarrow> Inl e
           | Inr probabilities \<Rightarrow>
               (case choices (rnd i) (map fst probabilities) (map snd probabilities) of
                  Inl e \<Rightarrow> Inl e
                | Inr next_page \<Rightarrow>
                    sample_loop corpus damping_factor rnd k (Suc i) Pge_Rnk' next_page)))"

text \<open>
  \<^verbatim>\<open>{page: rank / total_samples for page, rank in Pge_Rnk.items()}\<close>: the first division
  raises \<^verbatim>\<open>ZeroDivisionError\<close> when \<^verbatim>\<open>total_samples\<close> is zero; with no item there is no
  division.
\<close>

definition normalize :: "('n \<times> int) list \<Rightarrow> error + 'n ranking" where
  "normalize Pge_Rnk =
     (let total_samples = dict_total Pge_Rnk
      in if Pge_Rnk \<noteq> [] \<and> total_samples = 0 then Inl ZeroDivisionError
         else Inr (map (\<lambda>(page, rank). (page, real_of_int rank / real_of_int total_samples))
                     Pge_Rnk))"

text \<open>
  \<^verbatim>\<open>
  Pge_Rnk = {page: 0 for page in corpus}
  current_page = random.choice(list(corpus.keys()))
  for _ in range(n): ...
  total_samples = sum(Pge_Rnk.values())
  Pge_Rnk = {page: rank / total_samples for page, rank in Pge_Rnk.items()}
  return Pge_Rnk
  \<close>
  \<^verbatim>\<open>range(n)\<close> is empty for \<open>n \<le> 0\<close>, so the loop runs \<open>nat n\<close> times.
\<close>

definition sample_pagerank ::
  "'n corpus \<Rightarrow> real \<Rightarrow> int \<Rightarrow> (nat \<Rightarrow> real) \<Rightarrow> error + 'n ranking" where
  "sample_pagerank corpus damping_factor n rnd =
     (let Pge_Rnk = map (\<lambda>(page, _). (page, 0)) corpus
      in case choice (rnd 0) (map fst corpus) of
           Inl e \<Rightarrow> Inl e
         | Inr current_page \<Rightarrow>
             (case sample_loop corpus damping_factor rnd (nat n) 1 Pge_Rnk current_page of
                Inl e \<Rightarrow> Inl e
              | Inr counted \<Rightarrow> normalize counted))"

subsection \<open>\<^verbatim>\<open>iterate_pagerank\<close>\<close>

text \<open>
  The inner loop for one \<open>page\<close>, on the dictionary \<open>new\<close> being filled:
  \<^verbatim>\<open>
  for lnkng_page, Lnks in corpus.items():
      if page in Lnks:
          new_Pge_Rnk[page] += damping_factor * (page_rank[lnkng_page] / len(Lnks))
  \<close>
  The augmented assignment reads \<^verbatim>\<open>new_Pge_Rnk[page]\<close>, then evaluates the right-hand
  side, then stores the sum. A set that contains \<open>page\<close> is not empty, so the division
  cannot fail.
\<close>

fun add_links :: "real \<Rightarrow> 'n ranking \<Rightarrow> 'n \<Rightarrow> 'n corpus \<Rightarrow> 'n ranking \<Rightarrow> error + 'n ranking" where
  "add_links damping_factor page_rank page [] new = Inr new"
| "add_links damping_factor page_rank page ((lnkng_page, Lnks) # items) new =
     (if page |\<in>| Lnks
      then (case dict_get new page of
              Inl e \<Rightarrow> Inl e
            | Inr old \<Rightarrow>
                (case dict_get page_rank lnkng_page of
                   Inl e \<Rightarrow> Inl e
                 | Inr r \<Rightarrow>
                     add_links damping_factor page_rank page items
                       (AList.update page (old + damping_factor * (r / real (fcard Lnks))) new)))
      else add_links damping_factor page_rank page items new)"

text \<open>
  The outer loop, over the pages that are still to come:
  \<^verbatim>\<open>
  for page in corpus:
      for lnkng_page, Lnks in corpus.items(): ...
  \<close>
\<close>

fun update_pages ::
  "'n corpus \<Rightarrow> real \<Rightarrow> 'n ranking \<Rightarrow> 'n list \<Rightarrow> 'n ranking \<Rightarrow> error + 'n ranking" where
  "update_pages corpus damping_factor page_rank [] new = Inr new"
| "update_pages corpus damping_factor page_rank (page # pages) new =
     (case add_links damping_factor page_rank page corpus new of
        Inl e \<Rightarrow> Inl e
      | Inr new' \<Rightarrow> update_pages corpus damping_factor page_rank pages new')"

text \<open>
  One pass of the loop body up to the test:
  \<^verbatim>\<open>
  new_Pge_Rnk = {page: (1 - damping_factor) / len(corpus) for page in corpus}
  for page in corpus: ...
  \<close>
\<close>

definition new_Pge_Rnk :: "'n corpus \<Rightarrow> real \<Rightarrow> 'n ranking \<Rightarrow> error + 'n ranking" where
  "new_Pge_Rnk corpus damping_factor page_rank =
     update_pages corpus damping_factor page_rank (map fst corpus)
       (map (\<lambda>(page, _). (page, (1 - damping_factor) / real (length corpus))) corpus)"

text \<open>
  \<^verbatim>\<open>all(abs(new_Pge_Rnk[page] - page_rank[page]) < 0.001 for page in corpus)\<close>, which stops
  at the first page that moved too far.
\<close>

fun converged :: "'n ranking \<Rightarrow> 'n ranking \<Rightarrow> 'n list \<Rightarrow> error + bool" where
  "converged new old [] = Inr True"
| "converged new old (page # pages) =
     (case dict_get new page of
        Inl e \<Rightarrow> Inl e
      | Inr a \<Rightarrow>
          (case dict_get old page of
             Inl e \<Rightarrow> Inl e
           | Inr b \<Rightarrow> if \<bar>a - b\<bar> < 0.001 then converged new old pages else Inr False))"

text \<open>
  \<^verbatim>\<open>
  while True:
      new_Pge_Rnk = ...
      if all(...): break
      page_rank = new_Pge_Rnk
  return page_rank
  \<close>
\<close>

partial_function (option) iterate_loop ::
  "'n corpus \<Rightarrow> real \<Rightarrow> 'n ranking \<Rightarrow> (error + 'n ranking) option" where
  "iterate_loop corpus damping_factor page_rank =
     (case new_Pge_Rnk corpus damping_factor page_rank of
        Inl e \<Rightarrow> Some (Inl e)
      | Inr new \<Rightarrow>
          (case converged new page_rank (map fst corpus) of
             Inl e \<Rightarrow> Some (Inl e)
           | Inr stop \<Rightarrow>
               if stop then Some (Inr page_rank)
               else iterate_loop corpus damping_factor new))"

declare iterate_loop.simps [code]

text \<open>\<^verbatim>\<open>page_rank = {page: 1 / len(corpus) for page in corpus}\<close>\<close>

definition initial_rank :: "'n corpus \<Rightarrow> 'n ranking" where
  "initial_rank corpus = map (\<lambda>(page, _). (page, 1 / real (length corpus))) corpus"

definition iterate_pagerank :: "'n corpus \<Rightarrow> real \<Rightarrow> (error + 'n ranking) option" where
  "iterate_pagerank corpus damping_factor =
     iterate_loop corpus damping_factor (initial_rank corpus)"

subsection \<open>Double-precision arithmetic\<close>

text \<open>
  CPython's \<^verbatim>\<open>float\<close> is the IEEE 754 binary64 format: an operation returns the exact result
  rounded to the nearest number with a 53-bit significand, a tie going to the even
  significand. A double is modelled by the real number it stands for. \<open>round_even\<close> rounds
  to the nearest integer in that way.
\<close>

definition round_even :: "real \<Rightarrow> int" where
  "round_even q =
     (let f = \<lfloor>q\<rfloor>; r = q - of_int f
      in if r < 1 / 2 then f else if 1 / 2 < r then f + 1 else if even f then f else f + 1)"

text \<open>
  The binade of \<open>x > 0\<close> is the exponent \<open>e\<close> with \<open>2 ^ e \<le> x < 2 ^ (e + 1)\<close>, found by halving and
  doubling. The exponents of the format lie between \<open>-1074\<close> and \<open>1023\<close>, so \<open>1100\<close> steps
  reach the binade of every number in its range.
\<close>

fun binade_fuel :: "nat \<Rightarrow> real \<Rightarrow> int" where
  "binade_fuel 0 x = 0"
| "binade_fuel (Suc n) x =
     (if 2 \<le> x then binade_fuel n (x / 2) + 1
      else if x < 1 then binade_fuel n (2 * x) - 1
      else 0)"

definition binade :: "real \<Rightarrow> int" where
  "binade x = binade_fuel 1100 \<bar>x\<bar>"

text \<open>
  \<open>f64 x\<close> is \<open>x\<close> rounded to a double: a multiple of \<open>2 ^ (e - 52)\<close> in the binade \<open>e\<close> of \<open>x\<close>, and
  a multiple of \<open>2 ^ (-1074)\<close> below \<open>2 ^ (-1022)\<close> (gradual underflow). A result of magnitude
  \<open>2 ^ 1024\<close> or more, which Python turns into \<^verbatim>\<open>inf\<close>, is outside this model; ranks
  stay far below it.
\<close>

definition f64 :: "real \<Rightarrow> real" where
  "f64 x =
     (if x = 0 then 0
      else (let e = max (binade x) (- 1022);
                u = 2 powi (e - 52)
            in u * of_int (round_even (x / u))))"

subsection \<open>\<^verbatim>\<open>iterate_pagerank\<close> in double precision\<close>

text \<open>
  The functions of \<^verbatim>\<open>iterate_pagerank\<close> once more, with the rounding of each operation
  written out. The damping factor and the ranks are doubles.
  \<^item> \<^verbatim>\<open>page_rank[lnkng_page] / len(Lnks)\<close> converts the length to a double and divides;
    the product with \<^verbatim>\<open>damping_factor\<close> and the sum with \<^verbatim>\<open>new_Pge_Rnk[page]\<close> are
    rounded in turn.
  \<^item> \<^verbatim>\<open>(1 - damping_factor) / len(corpus)\<close> rounds the difference and then the quotient.
  \<^item> \<^verbatim>\<open>1 / len(corpus)\<close> divides two integers and rounds the quotient.
  \<^item> \<^verbatim>\<open>abs(new_Pge_Rnk[page] - page_rank[page]) < 0.001\<close> rounds the difference and
    compares it with the double nearest to \<open>1/1000\<close>.
\<close>

fun add_links_f64 ::
  "real \<Rightarrow> 'n ranking \<Rightarrow> 'n \<Rightarrow> 'n corpus \<Rightarrow> 'n ranking \<Rightarrow> error + 'n ranking" where
  "add_links_f64 damping_factor page_rank page [] new = Inr new"
| "add_links_f64 damping_factor page_rank page ((lnkng_page, Lnks) # items) new =
     (if page |\<in>| Lnks
      then (case dict_get new page of
              Inl e \<Rightarrow> Inl e
            | Inr old \<Rightarrow>
                (case dict_get page_rank lnkng_page of
                   Inl e \<Rightarrow> Inl e
                 | Inr r \<Rightarrow>
                     add_links_f64 damping_factor page_rank page items
                       (AList.update page
                          (f64 (old + f64 (damping_factor * f64 (r / f64 (real (fcard Lnks))))))
                          new)))
      else add_links_f64 damping_factor page_rank page items new)"

fun update_pages_f64 ::
  "'n corpus \<Rightarrow> real \<Rightarrow> 'n ranking \<Rightarrow> 'n list \<Rightarrow> 'n ranking \<Rightarrow> error + 'n ranking" where
  "update_pages_f64 corpus damping_factor page_rank [] new = Inr new"
| "update_pages_f64 corpus damping_factor page_rank (page # pages) new =
     (case add_links_f64 damping_factor page_rank page corpus new of
        Inl e \<Rightarrow> Inl e
      | Inr new' \<Rightarrow> update_pages_f64 corpus damping_factor page_rank pages new')"

definition new_Pge_Rnk_f64 :: "'n corpus \<Rightarrow> real \<Rightarrow> 'n ranking \<Rightarrow> error + 'n ranking" where
  "new_Pge_Rnk_f64 corpus damping_factor page_rank =
     update_pages_f64 corpus damping_factor page_rank (map fst corpus)
       (map (\<lambda>(page, _). (page, f64 (f64 (1 - damping_factor) / f64 (real (length corpus)))))
          corpus)"

fun converged_f64 :: "'n ranking \<Rightarrow> 'n ranking \<Rightarrow> 'n list \<Rightarrow> error + bool" where
  "converged_f64 new old [] = Inr True"
| "converged_f64 new old (page # pages) =
     (case dict_get new page of
        Inl e \<Rightarrow> Inl e
      | Inr a \<Rightarrow>
          (case dict_get old page of
             Inl e \<Rightarrow> Inl e
           | Inr b \<Rightarrow>
               if \<bar>f64 (a - b)\<bar> < f64 (1 / 1000) then converged_f64 new old pages
               else Inr False))"

partial_function (option) iterate_loop_f64 ::
  "'n corpus \<Rightarrow> real \<Rightarrow> 'n ranking \<Rightarrow> (error + 'n ranking) option" where
  "iterate_loop_f64 corpus damping_factor page_rank =
     (case new_Pge_Rnk_f64 corpus damping_factor page_rank of
        Inl e \<Rightarrow> Some (Inl e)
      | Inr new \<Rightarrow>
          (case converged_f64 new page_rank (map fst corpus) of
             Inl e \<Rightarrow> Some (Inl e)
           | Inr stop \<Rightarrow>
               if stop then Some (Inr page_rank)
               else iterate_loop_f64 corpus damping_factor new))"

declare iterate_loop_f64.simps [code]

definition initial_rank_f64 :: "'n corpus \<Rightarrow> 'n ranking" where
  "initial_rank_f64 corpus = map (\<lambda>(page, _). (page, f64 (1 / real (length corpus)))) corpus"

definition iterate_pagerank_f64 :: "'n corpus \<Rightarrow> real \<Rightarrow> (error + 'n ranking) option" where
  "iterate_pagerank_f64 corpus damping_factor =
     iterate_loop_f64 corpus damping_factor (initial_rank_f64 corpus)"

text \<open>A hub \<open>H\<close> that links to three pages, each of which links back to the hub only.\<close>

definition star :: "string corpus" where
  "star = [(''H'', {|''A'', ''B'', ''C''|}), (''A'', {|''H''|}), (''B'', {|''H''|}), (''C'', {|''H''|})]"

subsection \<open>The update as a function on rank vectors\<close>

text \<open>
  For the proofs, a rank dictionary is read as a function of the page, and one pass of the
  loop body as a function \<open>next_rank\<close> from rank dictionaries to rank dictionaries.
  \<open>inflow\<close> is the sum the inner loop adds to the entry of one page, \<open>close_enough\<close> the
  convergence test, and \<open>l1_dist\<close> the sum of the absolute differences of two rank vectors
  over the pages. The lemmas below connect them to \<open>new_Pge_Rnk\<close> and \<open>converged\<close>.
\<close>

definition rank_at :: "'n ranking \<Rightarrow> 'n \<Rightarrow> real" where
  "rank_at r p = (case map_of r p of Some v \<Rightarrow> v | None \<Rightarrow> 0)"

definition inflow :: "'n corpus \<Rightarrow> ('n \<Rightarrow> real) \<Rightarrow> 'n \<Rightarrow> real" where
  "inflow corpus x p =
     sum_list (map (\<lambda>(i, L). if p |\<in>| L then x i / real (fcard L) else 0) corpus)"

definition next_rank :: "'n corpus \<Rightarrow> real \<Rightarrow> 'n ranking \<Rightarrow> 'n ranking" where
  "next_rank corpus d r =
     map (\<lambda>p. (p, (1 - d) / real (length corpus) + d * inflow corpus (rank_at r) p))
       (map fst corpus)"

definition close_enough :: "'n list \<Rightarrow> 'n ranking \<Rightarrow> 'n ranking \<Rightarrow> bool" where
  "close_enough ps new old = list_all (\<lambda>p. \<bar>rank_at new p - rank_at old p\<bar> < 0.001) ps"

definition l1_dist :: "'n list \<Rightarrow> ('n \<Rightarrow> real) \<Rightarrow> ('n \<Rightarrow> real) \<Rightarrow> real" where
  "l1_dist ps x y = sum_list (map (\<lambda>p. \<bar>x p - y p\<bar>) ps)"

section \<open>Properties of \<^verbatim>\<open>transition_model\<close>\<close>

subsection \<open>Dictionaries built from the keys of another\<close>

lemma dict_get_map_keys:
  "p \<in> set (map fst m) \<Longrightarrow> dict_get (map (\<lambda>(k, _). (k, f k)) m) p = Inr (f p)"
  by (induction m) (auto simp: dict_get_def)

lemma map_fst_map_keys: "map fst (map (\<lambda>(k, _). (k, f k)) m) = map fst m"
  by (induction m) auto

lemma dict_total_map_keys:
  fixes f :: "'k \<Rightarrow> real"
  shows "dict_total (map (\<lambda>(k, _). (k, f k)) m) = sum_list (map f (map fst m))"
  by (induction m) (auto simp: dict_total_def)

lemma dict_total_const: "dict_total (map (\<lambda>(p, _). (p, c)) m) = real (length m) * c"
  by (induction m) (auto simp: dict_total_def algebra_simps)

lemma transition_model_Inr:
  assumes "dict_get corpus page = Inr L"
  shows "transition_model corpus page d =
           Inr (map (\<lambda>(p, _). (p, (if p |\<in>| L then (if L = {||} then 0 else d / real (fcard L)) else 0)
                                   + (1 - d) / real (length corpus))) corpus)"
  using assms by (simp add: transition_model_def Let_def)

subsection \<open>A page with outbound links\<close>

text \<open>
  Claim C6. Let the corpus be a dictionary, \<open>page\<close> one of its keys and \<open>L\<close>, the set of
  links of \<open>page\<close>, not empty. Then \<open>transition_model\<close> returns a dictionary over the keys of
  the corpus, in which a page of \<open>L\<close> has the value \<open>d / |L| + (1 - d) / N\<close> and every other
  page the value \<open>(1 - d) / N\<close>, where \<open>N\<close> is the number of pages. This holds for every
  damping factor \<open>d\<close>; the two graph invariants are not needed.
\<close>

theorem transition_linked_pages:
  assumes "dict_keys_ok corpus" and "dict_get corpus page = Inr L" and "L \<noteq> {||}"
  shows "\<exists>pd. transition_model corpus page d = Inr pd \<and>
           map fst pd = map fst corpus \<and>
           (\<forall>q \<in> set (map fst corpus).
              dict_get pd q =
                Inr (if q |\<in>| L
                     then d / real (fcard L) + (1 - d) / real (card (set (map fst corpus)))
                     else (1 - d) / real (card (set (map fst corpus)))))"
proof -
  have N: "card (set (map fst corpus)) = length corpus"
    using assms(1) distinct_card [of "map fst corpus"] by (simp add: dict_keys_ok_def)
  let ?f = "\<lambda>p. (if p |\<in>| L then (if L = {||} then 0 else d / real (fcard L)) else 0)
                  + (1 - d) / real (length corpus)"
  have "transition_model corpus page d = Inr (map (\<lambda>(p, _). (p, ?f p)) corpus)"
    by (rule transition_model_Inr [OF assms(2)])
  moreover have "map fst (map (\<lambda>(p, _). (p, ?f p)) corpus) = map fst corpus"
    by (rule map_fst_map_keys)
  moreover have "\<forall>q \<in> set (map fst corpus). dict_get (map (\<lambda>(p, _). (p, ?f p)) corpus) q =
                Inr (if q |\<in>| L
                     then d / real (fcard L) + (1 - d) / real (card (set (map fst corpus)))
                     else (1 - d) / real (card (set (map fst corpus))))"
    using assms(3) by (simp add: dict_get_map_keys N del: set_map)
  ultimately show ?thesis by blast
qed

theorem transition_linked_pages_witness:
  "dict_keys_ok [(''A'', {|''B'', ''C''|}), (''B'', {||}), (''C'', {|''A''|})] \<and>
   dict_get [(''A'', {|''B'', ''C''|}), (''B'', {||}), (''C'', {|''A''|})] ''A'' = Inr {|''B'', ''C''|} \<and>
   {|''B'', ''C''|} \<noteq> {||} \<and>
   transition_model [(''A'', {|''B'', ''C''|}), (''B'', {||}), (''C'', {|''A''|})] ''A'' (85 / 100)
     = Inr [(''A'', 1 / 20), (''B'', 19 / 40), (''C'', 19 / 40)] \<and>
   dict_get [(''A'', 1 / 20), (''B'', 19 / 40), (''C'', 19 / 40 :: real)] ''B'' = Inr (19 / 40) \<and>
   dict_get [(''A'', 1 / 20), (''B'', 19 / 40), (''C'', 19 / 40 :: real)] ''A'' = Inr (1 / 20)"
  using transition_linked_pages [of "[(''A'', {|''B'', ''C''|}), (''B'', {||}), (''C'', {|''A''|})]"
      "''A''" "{|''B'', ''C''|}" "85 / 100"]
  by (simp add: dict_keys_ok_def dict_get_def transition_model_def fcard_finsert_if fcard_fempty)

subsection \<open>A page without outbound links\<close>

text \<open>
  For a page without links \<^verbatim>\<open>lnk_prob\<close> is \<open>0\<close>, and every page gets the value
  \<open>(1 - d) / N\<close>. The values add up to \<open>1 - d\<close>.
\<close>

lemma transition_dead_end:
  assumes "dict_get corpus page = Inr {||}"
  shows "transition_model corpus page d =
           Inr (map (\<lambda>(p, _). (p, (1 - d) / real (length corpus))) corpus)"
  by (simp add: transition_model_Inr [OF assms])

lemma transition_dead_end_total:
  assumes "dict_get corpus page = Inr {||}" and "transition_model corpus page d = Inr pd"
  shows "dict_total pd = 1 - d"
proof -
  have "corpus \<noteq> []" using assms(1) by (auto simp: dict_get_def)
  then show ?thesis
    using assms(2) unfolding transition_dead_end [OF assms(1)]
    by (auto simp: dict_total_const)
qed

text \<open>
  Claim C1 says that a page without links is given the value \<open>1 / N\<close> for every page. On the
  graph with the single page \<open>A\<close>, which has no links, and the damping factor \<open>0.85\<close>, the
  function gives \<open>A\<close> the value \<open>0.15\<close>, where \<open>1 / N\<close> is \<open>1\<close>.
\<close>

theorem transition_dead_end_single:
  "transition_model [(''A'', {||})] ''A'' (85 / 100) = Inr [(''A'', 15 / 100)]"
  by (simp add: transition_model_def dict_get_def)

subsection \<open>Sum and sign of the values\<close>

lemma sum_list_indicator:
  fixes w :: real
  shows "sum_list (map (\<lambda>p. if P p then w else 0) ps) = w * real (length (filter P ps))"
  by (induction ps) (simp_all add: algebra_simps)

lemma linked_keys_eq:
  assumes "distinct ps" and "fset L \<subseteq> set ps"
  shows "length (filter (\<lambda>p. p |\<in>| L) ps) = fcard L"
proof -
  have "length (filter (\<lambda>p. p |\<in>| L) ps) = card (set (filter (\<lambda>p. p |\<in>| L) ps))"
    using assms(1) distinct_card [of "filter (\<lambda>p. p |\<in>| L) ps"] by (simp del: set_filter)
  also have "set (filter (\<lambda>p. p |\<in>| L) ps) = fset L"
    using assms(2) by auto
  finally show ?thesis by (simp add: fcard.rep_eq)
qed

lemma graph_invariants_links:
  assumes "graph_invariants corpus" and "dict_get corpus page = Inr L"
  shows "fset L \<subseteq> set (map fst corpus)"
proof -
  from assms(2) have "(page, L) \<in> set corpus"
    by (auto simp: dict_get_def split: option.splits dest: map_of_SomeD)
  with assms(1) show ?thesis
    unfolding graph_invariants_def list_all_iff by fastforce
qed

text \<open>
  Under the graph invariants the values for a page that has links add up to \<open>1\<close>, and for
  a damping factor in \<open>[0, 1)\<close> every page has a positive value, with or without links.
\<close>

lemma transition_total_linked:
  assumes "graph_invariants corpus" and "dict_get corpus page = Inr L" and "L \<noteq> {||}"
    and "transition_model corpus page d = Inr pd"
  shows "dict_total pd = 1"
proof -
  let ?ks = "map fst corpus"
  have ne: "corpus \<noteq> []" using assms(2) by (auto simp: dict_get_def)
  have cnt: "length (filter (\<lambda>p. p |\<in>| L) ?ks) = fcard L"
    using assms(1) graph_invariants_links [OF assms(1,2)]
    by (intro linked_keys_eq) (simp_all add: graph_invariants_def dict_keys_ok_def)
  have card: "real (fcard L) \<noteq> 0" using assms(3) by simp
  have "dict_total pd =
          sum_list (map (\<lambda>p. (if p |\<in>| L then d / real (fcard L) else 0)
                               + (1 - d) / real (length corpus)) ?ks)"
  proof -
    let ?f = "\<lambda>p. (if p |\<in>| L then (if L = {||} then 0 else d / real (fcard L)) else 0)
                    + (1 - d) / real (length corpus)"
    have "pd = map (\<lambda>(p, _). (p, ?f p)) corpus"
      using assms(4) unfolding transition_model_Inr [OF assms(2)] by simp
    then have "dict_total pd = sum_list (map ?f ?ks)"
      by (simp only: dict_total_map_keys)
    moreover have "?f = (\<lambda>p. (if p |\<in>| L then d / real (fcard L) else 0)
                               + (1 - d) / real (length corpus))"
      using assms(3) by (simp add: fun_eq_iff)
    ultimately show ?thesis by simp
  qed
  also have "\<dots> = sum_list (map (\<lambda>p. if p |\<in>| L then d / real (fcard L) else 0) ?ks)
                   + sum_list (map (\<lambda>p. (1 - d) / real (length corpus)) ?ks)"
    by (rule sum_list_addf)
  also have "sum_list (map (\<lambda>p. if p |\<in>| L then d / real (fcard L) else 0) ?ks) = d"
    unfolding sum_list_indicator cnt using card by simp
  also have "sum_list (map (\<lambda>p. (1 - d) / real (length corpus)) ?ks) = 1 - d"
  proof -
    have "sum_list (map (\<lambda>p. (1 - d) / real (length corpus)) ?ks)
            = real (length ?ks) * ((1 - d) / real (length corpus))"
      by (simp only: sum_list_triv)
    then show ?thesis using ne by simp
  qed
  finally show ?thesis by simp
qed

lemma transition_positive:
  assumes "dict_get corpus page = Inr L" and "0 \<le> d" and "d < 1"
    and "transition_model corpus page d = Inr pd" and "q \<in> set (map fst corpus)"
  shows "\<exists>v. dict_get pd q = Inr v \<and> 0 < v"
proof -
  let ?f = "\<lambda>p. (if p |\<in>| L then (if L = {||} then 0 else d / real (fcard L)) else 0)
                  + (1 - d) / real (length corpus)"
  have ne: "corpus \<noteq> []" using assms(1) by (auto simp: dict_get_def)
  then have "0 < (1 - d) / real (length corpus)" using assms(3) by simp
  moreover have "0 \<le> (if q |\<in>| L then (if L = {||} then 0 else d / real (fcard L)) else 0)"
    using assms(2) by simp
  ultimately have "0 < ?f q" by linarith
  moreover have "dict_get pd q = Inr (?f q)"
    using assms(4) unfolding transition_model_Inr [OF assms(1)]
    using dict_get_map_keys [OF assms(5), of ?f] by auto
  ultimately show ?thesis by blast
qed

text \<open>
  Claim C4 says that the values add up to \<open>1\<close> for every page of every graph that satisfies
  the invariants. On the graph \<open>A \<rightarrow> {B, C}\<close>, \<open>B \<rightarrow> {}\<close>, \<open>C \<rightarrow> {A}\<close> with the damping factor
  \<open>0.85\<close>, the values returned for the page \<open>B\<close> are \<open>0.05\<close> each and add up to \<open>0.15\<close>.
\<close>

theorem transition_dead_end_not_distribution:
  "transition_model [(''A'', {|''B'', ''C''|}), (''B'', {||}), (''C'', {|''A''|})] ''B'' (85 / 100)
     = Inr [(''A'', 1 / 20), (''B'', 1 / 20), (''C'', 1 / 20)] \<and>
   dict_total [(''A'', 1 / 20), (''B'', 1 / 20), (''C'', 1 / 20 :: real)] = 15 / 100"
  by (simp add: transition_model_def dict_get_def dict_total_def)

section \<open>Properties of \<^verbatim>\<open>sample_pagerank\<close>\<close>

subsection \<open>The empty graph\<close>

text \<open>
  Claim C7, as stated: on the empty graph the estimator fails with an error of the kind
  \<open>InvalidInput\<close>, raised by a validation at its entry. The code has no validation and no
  such error: the exception is the \<^verbatim>\<open>IndexError\<close> that \<^verbatim>\<open>random.choice\<close> raises on the
  empty list of keys.
\<close>

theorem sample_empty_graph_index_error:
  "sample_pagerank ([] :: string corpus) (85 / 100) 10000 (\<lambda>k. 0) = Inl IndexError"
  by (simp add: sample_pagerank_def choice_def)

text \<open>
  The other estimator has no check of the empty graph either: it returns the empty
  dictionary.
\<close>

lemma iterate_empty_graph: "iterate_pagerank [] d = Some (Inr [])"
  unfolding iterate_pagerank_def
  by (subst iterate_loop.simps) (simp add: initial_rank_def new_Pge_Rnk_def)

text \<open>
  Claim C7, amended: on the empty graph \<^verbatim>\<open>sample_pagerank\<close> fails with \<^verbatim>\<open>IndexError\<close>, for
  every damping factor, every sample count and every source of randomness. The exception
  comes from the choice of the first page, before any sample is counted, and no dictionary
  is returned.
\<close>

theorem sample_empty_graph: "sample_pagerank [] d n rnd = Inl IndexError"
  by (simp add: sample_pagerank_def choice_def)

subsection \<open>A sample count that is not positive\<close>

text \<open>
  With \<open>n \<le> 0\<close> the loop body never runs, every counter is still \<open>0\<close>, and the first
  division by \<^verbatim>\<open>total_samples\<close> fails.
\<close>

lemma sample_no_draw_fails:
  assumes "corpus \<noteq> []" and "n \<le> 0"
  shows "sample_pagerank corpus d n rnd = Inl ZeroDivisionError"
proof -
  have z: "dict_total (map (\<lambda>(page, _). (page, 0::int)) corpus) = 0"
    by (induction corpus) (auto simp: dict_total_def)
  from assms show ?thesis
    by (simp add: sample_pagerank_def choice_def normalize_def z)
qed

text \<open>
  Claim C8 says that for a sample count \<open>n \<le> 0\<close> the estimator rejects the input or
  returns the rank \<open>0\<close> for every page, and does not fail in a division by zero. On the
  graph with the single page \<open>A\<close> and \<open>n = 0\<close> the result is \<^verbatim>\<open>ZeroDivisionError\<close>.
\<close>

theorem sample_zero_count_divides_by_zero:
  "sample_pagerank [(''A'', {||})] (85 / 100) 0 (\<lambda>k. 0) = Inl ZeroDivisionError"
  by (simp add: sample_pagerank_def choice_def normalize_def dict_total_def)

subsection \<open>The graph with a single page\<close>

text \<open>
  On a graph whose only page has no links, every step counts that page and draws it again,
  whatever the variates are; after \<open>n > 0\<close> steps the page has rank \<open>n / n = 1\<close>.
\<close>

lemma single_loop:
  "d < 1 \<Longrightarrow> sample_loop [(a, {||})] d rnd k i [(a, c)] a = Inr [(a, c + int k)]"
proof (induction k arbitrary: i c)
  case 0
  then show ?case by simp
next
  case (Suc k)
  have "bisect [1 - d] (rnd i * (1 - d)) 0 0 = 0" by (simp add: bisect.simps)
  with Suc show ?case
    by (simp add: dict_incr_def dict_get_def transition_model_def choices_def)
qed

lemma sample_single_node:
  assumes "d < 1" and "0 < n"
  shows "sample_pagerank [(a, {||})] d n rnd = Inr [(a, 1)]"
  using assms by (simp add: sample_pagerank_def choice_def single_loop normalize_def dict_total_def)

section \<open>Properties of \<^verbatim>\<open>iterate_pagerank\<close>\<close>

subsection \<open>The loop body computes \<open>next_rank\<close>\<close>

lemma dict_get_rank_at: "k \<in> fst ` set r \<Longrightarrow> dict_get r k = Inr (rank_at r k)"
  by (auto simp: dict_get_def rank_at_def map_of_eq_None_iff split: option.splits)

lemma rank_at_update: "rank_at (AList.update k v al) p = (if p = k then v else rank_at al p)"
  by (simp add: rank_at_def AList.update_conv')

lemma keys_update: "k \<in> set (map fst al) \<Longrightarrow> map fst (AList.update k v al) = map fst al"
  by (simp add: AList.update_keys)

lemma inflow_Cons:
  "inflow ((i, L) # items) x p = (if p |\<in>| L then x i / real (fcard L) else 0) + inflow items x p"
  by (simp add: inflow_def)

text \<open>
  The inner loop raises no exception and changes the entry of \<open>page\<close> only; the outer loop
  does so for every page in turn.
\<close>

lemma add_links_Inr:
  assumes "page \<in> set (map fst new)" and "fst ` set items \<subseteq> fst ` set r"
  shows "\<exists>new'. add_links d r page items new = Inr new' \<and> map fst new' = map fst new \<and>
           (\<forall>p. rank_at new' p =
                  (if p = page then rank_at new page + d * inflow items (rank_at r) page
                   else rank_at new p))"
  using assms
proof (induction items arbitrary: new)
  case Nil
  then show ?case by (simp add: inflow_def)
next
  case (Cons item items)
  obtain i L where item: "item = (i, L)" by (cases item)
  from Cons.prems have sub: "fst ` set items \<subseteq> fst ` set r" by auto
  show ?case
  proof (cases "page |\<in>| L")
    case False
    with Cons.IH [OF Cons.prems(1) sub] show ?thesis
      by (auto simp: item inflow_Cons)
  next
    case True
    from Cons.prems item have i: "dict_get r i = Inr (rank_at r i)"
      by (intro dict_get_rank_at) auto
    from Cons.prems(1) have pg: "dict_get new page = Inr (rank_at new page)"
      by (intro dict_get_rank_at) simp
    let ?new = "AList.update page (rank_at new page + d * (rank_at r i / real (fcard L))) new"
    have keys: "map fst ?new = map fst new"
      by (rule keys_update [OF Cons.prems(1)])
    then have "page \<in> set (map fst ?new)" using Cons.prems(1) by simp
    from Cons.IH [OF this sub] obtain new' where
      new': "add_links d r page items ?new = Inr new'" "map fst new' = map fst ?new"
        "\<forall>p. rank_at new' p =
               (if p = page then rank_at ?new page + d * inflow items (rank_at r) page
                else rank_at ?new p)"
      by blast
    have "add_links d r page (item # items) new = add_links d r page items ?new"
      using True by (simp add: item pg i)
    then have "add_links d r page (item # items) new = Inr new'"
      by (simp only: new'(1))
    moreover have "map fst new' = map fst new" using new'(2) keys by simp
    moreover have "\<forall>p. rank_at new' p =
               (if p = page then rank_at new page + d * inflow (item # items) (rank_at r) page
                else rank_at new p)"
      using new'(3) True by (simp add: rank_at_update item inflow_Cons algebra_simps)
    ultimately show ?thesis by blast
  qed
qed

lemma update_pages_Inr:
  assumes "distinct pages" and "set pages \<subseteq> set (map fst new)"
    and "fst ` set corpus \<subseteq> fst ` set r"
  shows "\<exists>new'. update_pages corpus d r pages new = Inr new' \<and> map fst new' = map fst new \<and>
           (\<forall>p. rank_at new' p =
                  (if p \<in> set pages then rank_at new p + d * inflow corpus (rank_at r) p
                   else rank_at new p))"
  using assms(1,2)
proof (induction pages arbitrary: new)
  case Nil
  then show ?case by simp
next
  case (Cons page pages)
  from Cons.prems(2) have pg: "page \<in> set (map fst new)" by simp
  from add_links_Inr [OF pg assms(3)] obtain new1 where
    new1: "add_links d r page corpus new = Inr new1" "map fst new1 = map fst new"
      "\<forall>p. rank_at new1 p =
             (if p = page then rank_at new page + d * inflow corpus (rank_at r) page
              else rank_at new p)"
    by blast
  from Cons.prems have d: "distinct pages" and nin: "page \<notin> set pages"
    and sub: "set pages \<subseteq> set (map fst new1)"
    using new1(2) by auto
  from Cons.IH [OF d sub] obtain new' where
    new': "update_pages corpus d r pages new1 = Inr new'" "map fst new' = map fst new1"
      "\<forall>p. rank_at new' p =
             (if p \<in> set pages then rank_at new1 p + d * inflow corpus (rank_at r) p
              else rank_at new1 p)"
    by blast
  have "update_pages corpus d r (page # pages) new = Inr new'"
    by (simp add: new1(1) new'(1))
  moreover have "map fst new' = map fst new" using new'(2) new1(2) by simp
  moreover have "\<forall>p. rank_at new' p =
             (if p \<in> set (page # pages) then rank_at new p + d * inflow corpus (rank_at r) p
              else rank_at new p)"
    using new'(3) new1(3) nin by auto
  ultimately show ?case by blast
qed

lemma rank_at_keys: "p \<in> set ks \<Longrightarrow> rank_at (map (\<lambda>k. (k, f k)) ks) p = f p"
  by (induction ks) (auto simp: rank_at_def)

lemma rank_at_const: "p \<in> set (map fst m) \<Longrightarrow> rank_at (map (\<lambda>(k, _). (k, c)) m) p = c"
  by (induction m) (auto simp: rank_at_def)

lemma ranking_eqI:
  assumes "map fst a = map fst b" and "\<forall>p \<in> set (map fst a). rank_at a p = rank_at b p"
    and "distinct (map fst a)"
  shows "a = b"
  using assms
proof (induction a arbitrary: b)
  case Nil
  then show ?case by simp
next
  case (Cons x a)
  from Cons.prems(1) obtain y b' where b: "b = y # b'" by (cases b) auto
  with Cons.prems(1) have fst: "fst x = fst y" and keys: "map fst a = map fst b'" by auto
  from Cons.prems(2) have "rank_at (x # a) (fst x) = rank_at b (fst x)" by simp
  then have snd: "snd x = snd y" using fst by (simp add: rank_at_def b)
  have "\<forall>p \<in> set (map fst a). rank_at a p = rank_at b' p"
  proof
    fix p assume p: "p \<in> set (map fst a)"
    with Cons.prems(3) have "p \<noteq> fst x" by force
    moreover from Cons.prems(2) p have "rank_at (x # a) p = rank_at b p" by fastforce
    ultimately show "rank_at a p = rank_at b' p" using fst by (simp add: rank_at_def b)
  qed
  moreover from Cons.prems(3) have "distinct (map fst a)" by simp
  ultimately have "a = b'" using Cons.IH keys by blast
  with fst snd show ?case by (simp add: b prod_eq_iff)
qed

lemma keys_next_rank: "map fst (next_rank corpus d r) = map fst corpus"
  by (simp add: next_rank_def comp_def)

lemma keys_initial_rank: "map fst (initial_rank corpus) = map fst corpus"
  by (simp add: initial_rank_def comp_def case_prod_unfold)

lemma rank_at_next_rank:
  "p \<in> set (map fst corpus) \<Longrightarrow>
     rank_at (next_rank corpus d r) p =
       (1 - d) / real (length corpus) + d * inflow corpus (rank_at r) p"
  unfolding next_rank_def by (rule rank_at_keys)

text \<open>
  When the rank dictionary has the keys of the corpus, one pass raises no exception and
  computes \<open>next_rank\<close>, and the test is \<open>close_enough\<close>.
\<close>

lemma new_Pge_Rnk_Inr:
  assumes "dict_keys_ok corpus" and "map fst r = map fst corpus"
  shows "new_Pge_Rnk corpus d r = Inr (next_rank corpus d r)"
proof -
  let ?new0 = "map (\<lambda>(page, _). (page, (1 - d) / real (length corpus))) corpus"
  have k0: "map fst ?new0 = map fst corpus" by (rule map_fst_map_keys)
  have dist: "distinct (map fst corpus)" using assms(1) by (simp add: dict_keys_ok_def)
  from assms(2) have "set (map fst corpus) = set (map fst r)" by simp
  then have sub: "fst ` set corpus \<subseteq> fst ` set r" by simp
  have "set (map fst corpus) \<subseteq> set (map fst ?new0)" unfolding k0 by simp
  from update_pages_Inr [OF dist this sub] obtain new' where
    new': "update_pages corpus d r (map fst corpus) ?new0 = Inr new'" "map fst new' = map fst ?new0"
      "\<forall>p. rank_at new' p =
             (if p \<in> set (map fst corpus) then rank_at ?new0 p + d * inflow corpus (rank_at r) p
              else rank_at ?new0 p)"
    by blast
  have "new' = next_rank corpus d r"
  proof (rule ranking_eqI)
    show "map fst new' = map fst (next_rank corpus d r)"
      using new'(2) k0 by (simp only: keys_next_rank)
    show "distinct (map fst new')" by (simp only: new'(2) k0 dist)
    show "\<forall>p \<in> set (map fst new'). rank_at new' p = rank_at (next_rank corpus d r) p"
    proof
      fix p assume "p \<in> set (map fst new')"
      then have p: "p \<in> set (map fst corpus)" using new'(2) k0 by simp
      then show "rank_at new' p = rank_at (next_rank corpus d r) p"
        using new'(3) by (simp only: rank_at_next_rank [OF p] rank_at_const [OF p] if_True)
    qed
  qed
  with new'(1) show ?thesis by (simp add: new_Pge_Rnk_def)
qed

lemma converged_Inr:
  "set ps \<subseteq> fst ` set new \<Longrightarrow> set ps \<subseteq> fst ` set old \<Longrightarrow>
     converged new old ps = Inr (close_enough ps new old)"
  by (induction ps) (auto simp: close_enough_def dict_get_rank_at)

lemma converged_next_rank:
  assumes "map fst r = map fst corpus"
  shows "converged (next_rank corpus d r) r (map fst corpus) =
           Inr (close_enough (map fst corpus) (next_rank corpus d r) r)"
proof (rule converged_Inr)
  show "set (map fst corpus) \<subseteq> fst ` set (next_rank corpus d r)"
    using keys_next_rank [of corpus d r] by (metis set_map subset_refl)
  show "set (map fst corpus) \<subseteq> fst ` set r"
    using assms by (metis set_map subset_refl)
qed

lemma iterate_loop_unfold:
  assumes "dict_keys_ok corpus" and "map fst r = map fst corpus"
  shows "iterate_loop corpus d r =
           (if close_enough (map fst corpus) (next_rank corpus d r) r then Some (Inr r)
            else iterate_loop corpus d (next_rank corpus d r))"
  by (subst iterate_loop.simps)
     (simp add: new_Pge_Rnk_Inr [OF assms] converged_next_rank [OF assms(2)])

subsection \<open>Pages without outbound links\<close>

text \<open>
  Claim C2 says that a page without links adds \<open>d * rank / N\<close> to the new rank of every
  page. In the code such a page is in no test \<^verbatim>\<open>page in Lnks\<close> as the linking page, so it
  adds nothing. On the graph \<open>A \<rightarrow> {B}\<close>, \<open>B \<rightarrow> {}\<close> with the damping factor \<open>0.85\<close> and the
  ranks \<open>1/2\<close>, \<open>1/2\<close>, the new rank of \<open>A\<close> is \<open>0.15 / 2 = 3/40\<close>; with the share of \<open>B\<close>
  it would be \<open>3/40 + 0.85 * (1/2) / 2\<close>.
\<close>

theorem dead_end_contributes_nothing:
  "new_Pge_Rnk [(''A'', {|''B''|}), (''B'', {||})] (85 / 100) [(''A'', 1 / 2), (''B'', 1 / 2)]
     = Inr [(''A'', 3 / 40), (''B'', 1 / 2)]"
  by (simp add: new_Pge_Rnk_def dict_get_def fcard_finsert_if fcard_fempty)

text \<open>
  Claim C3 says that on the graph with the single page \<open>A\<close>, which has no links, both
  estimators return the rank \<open>1\<close> for \<open>A\<close>. The sampling estimator does
  (\<open>sample_single_node\<close>). The iteration returns the rank \<open>0.15\<close> for the damping factor
  \<open>0.85\<close>: the first pass moves the rank from \<open>1\<close> to \<open>0.15\<close>, the second leaves it there.
\<close>

theorem iterate_single_node:
  "iterate_pagerank [(''A'', {||})] (85 / 100) = Some (Inr [(''A'', 15 / 100)])"
  unfolding iterate_pagerank_def initial_rank_def
  apply (subst iterate_loop.simps)
  apply (simp add: new_Pge_Rnk_def dict_get_def)
  apply (subst iterate_loop.simps)
  apply (simp add: new_Pge_Rnk_def dict_get_def)
  done

text \<open>
  Claim C5 says that the ranks returned by the iteration add up to \<open>1\<close> within \<open>0.001\<close>. On
  the graph \<open>A \<rightarrow> {B}\<close>, \<open>B \<rightarrow> {}\<close>, which satisfies the invariants, with the damping factor
  \<open>0.85\<close> the iteration stops in its third pass and returns ranks that add up to
  \<open>171/800\<close>.
\<close>

theorem iterate_dead_end_loses_rank:
  "iterate_pagerank [(''A'', {|''B''|}), (''B'', {||})] (85 / 100)
     = Some (Inr [(''A'', 3 / 40), (''B'', 111 / 800)]) \<and>
   dict_total [(''A'', 3 / 40), (''B'', 111 / 800 :: real)] = 171 / 800"
  unfolding iterate_pagerank_def initial_rank_def
  apply (subst iterate_loop.simps)
  apply (simp add: new_Pge_Rnk_def dict_get_def fcard_finsert_if fcard_fempty)
  apply (subst iterate_loop.simps)
  apply (simp add: new_Pge_Rnk_def dict_get_def fcard_finsert_if fcard_fempty)
  apply (subst iterate_loop.simps)
  apply (simp add: new_Pge_Rnk_def dict_get_def fcard_finsert_if fcard_fempty dict_total_def)
  done

subsection \<open>What the loop returns\<close>

lemma converged_True_entries:
  "converged new old ps = Inr True \<Longrightarrow>
     \<forall>p \<in> set ps. \<exists>a b. dict_get new p = Inr a \<and> dict_get old p = Inr b \<and> \<bar>a - b\<bar> < 0.001"
  by (induction ps) (auto split: sum.splits if_splits)

lemma iterate_loop_stops_converged:
  assumes "iterate_loop corpus d r0 = Some res"
  shows "\<forall>r. res = Inr r \<longrightarrow>
           (\<exists>new. new_Pge_Rnk corpus d r = Inr new \<and> converged new r (map fst corpus) = Inr True)"
proof (rule iterate_loop.raw_induct
    [where P = "\<lambda>c d r0 res. \<forall>r. res = Inr r \<longrightarrow>
                  (\<exists>new. new_Pge_Rnk c d r = Inr new \<and> converged new r (map fst c) = Inr True)",
      OF _ assms])
  fix loop :: "'a corpus \<Rightarrow> real \<Rightarrow> 'a ranking \<Rightarrow> (error + 'a ranking) option"
  fix c d pr res
  assume IH: "\<And>c d pr y. loop c d pr = Some y \<Longrightarrow>
                \<forall>r. y = Inr r \<longrightarrow>
                  (\<exists>new. new_Pge_Rnk c d r = Inr new \<and> converged new r (map fst c) = Inr True)"
    and body: "(case new_Pge_Rnk c d pr of
                  Inl e \<Rightarrow> Some (Inl e)
                | Inr new \<Rightarrow>
                    (case converged new pr (map fst c) of
                       Inl e \<Rightarrow> Some (Inl e)
                     | Inr stop \<Rightarrow> if stop then Some (Inr pr) else loop c d new)) = Some res"
  show "\<forall>r. res = Inr r \<longrightarrow>
          (\<exists>new. new_Pge_Rnk c d r = Inr new \<and> converged new r (map fst c) = Inr True)"
  proof (cases "new_Pge_Rnk c d pr")
    case (Inl e)
    with body show ?thesis by auto
  next
    case new: (Inr new)
    show ?thesis
    proof (cases "converged new pr (map fst c)")
      case (Inl e)
      with body new show ?thesis by auto
    next
      case (Inr stop)
      show ?thesis
      proof (cases stop)
        case True
        with body new Inr show ?thesis by auto
      next
        case False
        with body new Inr have "loop c d new = Some res" by simp
        from IH [OF this] show ?thesis .
      qed
    qed
  qed
qed

lemma iterate_loop_stops_at_once:
  assumes "new_Pge_Rnk corpus d r = Inr new" and "converged new r (map fst corpus) = Inr True"
  shows "iterate_loop corpus d r = Some (Inr r)"
  by (subst iterate_loop.simps) (simp add: assms)

text \<open>
  Claim C10. The loop returns \<^verbatim>\<open>page_rank\<close>, the ranks from before the last update, and
  not the ranks \<^verbatim>\<open>new_Pge_Rnk\<close> it has just computed:
  \<^item> whenever \<open>iterate_pagerank\<close> returns ranks \<open>r\<close>, one more update of \<open>r\<close> raises no
    exception and moves the rank of every page by less than \<open>0.001\<close>;
  \<^item> when the test succeeds for the ranks \<open>page_rank\<close> the loop is entered with, the loop
    returns \<open>page_rank\<close> itself;
  \<^item> in particular, when the first update moves every rank by less than \<open>0.001\<close>, the
    result is the initial dictionary, which gives \<open>1 / N\<close> to every page.
\<close>

theorem iterate_returns_previous_iterate:
  "(iterate_pagerank corpus d = Some (Inr r) \<longrightarrow>
      (\<exists>new. new_Pge_Rnk corpus d r = Inr new \<and>
         converged new r (map fst corpus) = Inr True \<and>
         (\<forall>p \<in> set (map fst corpus).
            \<exists>a b. dict_get new p = Inr a \<and> dict_get r p = Inr b \<and> \<bar>a - b\<bar> < 0.001))) \<and>
   (new_Pge_Rnk corpus d page_rank = Inr new1 \<and>
    converged new1 page_rank (map fst corpus) = Inr True \<longrightarrow>
      iterate_loop corpus d page_rank = Some (Inr page_rank)) \<and>
   (new_Pge_Rnk corpus d (initial_rank corpus) = Inr new0 \<and>
    converged new0 (initial_rank corpus) (map fst corpus) = Inr True \<longrightarrow>
      iterate_pagerank corpus d = Some (Inr (initial_rank corpus)))"
proof (intro conjI impI)
  assume "iterate_pagerank corpus d = Some (Inr r)"
  then have "iterate_loop corpus d (initial_rank corpus) = Some (Inr r)"
    by (simp add: iterate_pagerank_def)
  from iterate_loop_stops_converged [OF this] obtain new
    where new: "new_Pge_Rnk corpus d r = Inr new" "converged new r (map fst corpus) = Inr True"
    by blast
  with converged_True_entries [OF new(2)]
  show "\<exists>new. new_Pge_Rnk corpus d r = Inr new \<and>
         converged new r (map fst corpus) = Inr True \<and>
         (\<forall>p \<in> set (map fst corpus).
            \<exists>a b. dict_get new p = Inr a \<and> dict_get r p = Inr b \<and> \<bar>a - b\<bar> < 0.001)"
    by blast
next
  assume "new_Pge_Rnk corpus d page_rank = Inr new1 \<and>
    converged new1 page_rank (map fst corpus) = Inr True"
  then show "iterate_loop corpus d page_rank = Some (Inr page_rank)"
    by (intro iterate_loop_stops_at_once) auto
next
  assume "new_Pge_Rnk corpus d (initial_rank corpus) = Inr new0 \<and>
    converged new0 (initial_rank corpus) (map fst corpus) = Inr True"
  then show "iterate_pagerank corpus d = Some (Inr (initial_rank corpus))"
    unfolding iterate_pagerank_def by (intro iterate_loop_stops_at_once) auto
qed

theorem iterate_returns_previous_iterate_witness:
  "iterate_pagerank [(''A'', {||})] (5 / 10000) = Some (Inr [(''A'', 1)]) \<and>
   iterate_loop [(''A'', {||})] (5 / 10000) [(''A'', 1)] = Some (Inr [(''A'', 1)]) \<and>
   new_Pge_Rnk [(''A'', {||})] (5 / 10000) [(''A'', 1)] = Inr [(''A'', 9995 / 10000)] \<and>
   converged [(''A'', 9995 / 10000)] [(''A'', 1)] (map fst [(''A'', {||})]) = Inr True \<and>
   dict_get [(''A'', 9995 / 10000 :: real)] ''A'' = Inr (9995 / 10000) \<and>
   dict_get [(''A'', 1 :: real)] ''A'' = Inr 1 \<and>
   \<bar>9995 / 10000 - 1 :: real\<bar> < 0.001 \<and>
   initial_rank [(''A'', {||})] = [(''A'', 1)]"
  using iterate_returns_previous_iterate
    [of "[(''A'', {||})]" "5 / 10000" "[(''A'', 1)]" "[(''A'', 1)]" "[(''A'', 9995 / 10000)]"
        "[(''A'', 9995 / 10000)]"]
  by (simp add: new_Pge_Rnk_def initial_rank_def dict_get_def)

subsection \<open>The update contracts the distance of two rank vectors\<close>

lemma sum_list_swap:
  fixes f :: "'a \<Rightarrow> 'b \<Rightarrow> real"
  shows "sum_list (map (\<lambda>p. sum_list (map (\<lambda>q. f p q) qs)) ps) =
         sum_list (map (\<lambda>q. sum_list (map (\<lambda>p. f p q) ps)) qs)"
  by (induction ps) (simp_all add: sum_list_addf)

lemma linked_keys_le:
  assumes "distinct ps"
  shows "length (filter (\<lambda>p. p |\<in>| L) ps) \<le> fcard L"
proof -
  have "length (filter (\<lambda>p. p |\<in>| L) ps) = card (set (filter (\<lambda>p. p |\<in>| L) ps))"
    using assms distinct_card [of "filter (\<lambda>p. p |\<in>| L) ps"] by (simp del: set_filter)
  also have "\<dots> \<le> card (fset L)"
    by (rule card_mono) auto
  finally show ?thesis by (simp add: fcard.rep_eq)
qed

lemma share_le:
  fixes a :: real
  assumes "distinct ps" and "0 \<le> a"
  shows "sum_list (map (\<lambda>p. if p |\<in>| L then a / real (fcard L) else 0) ps) \<le> a"
proof (cases "fcard L = 0")
  case True
  then show ?thesis using assms(2) by (simp add: sum_list_indicator)
next
  case False
  have "real (length (filter (\<lambda>p. p |\<in>| L) ps)) \<le> real (fcard L)"
    using linked_keys_le [OF assms(1)] by simp
  then have "a / real (fcard L) * real (length (filter (\<lambda>p. p |\<in>| L) ps))
               \<le> a / real (fcard L) * real (fcard L)"
    using assms(2) by (intro mult_left_mono) simp_all
  also have "\<dots> = a" using False by simp
  finally show ?thesis by (simp add: sum_list_indicator)
qed

lemma inflow_diff:
  "inflow corpus x p - inflow corpus y p =
     sum_list (map (\<lambda>(i, L). if p |\<in>| L then (x i - y i) / real (fcard L) else 0) corpus)"
  by (induction corpus) (auto simp: inflow_def diff_divide_distrib)

lemma inflow_diff_abs:
  "\<bar>inflow corpus x p - inflow corpus y p\<bar> \<le>
     sum_list (map (\<lambda>(i, L). if p |\<in>| L then \<bar>x i - y i\<bar> / real (fcard L) else 0) corpus)"
proof -
  have "\<bar>inflow corpus x p - inflow corpus y p\<bar> \<le>
          sum_list (map abs
            (map (\<lambda>(i, L). if p |\<in>| L then (x i - y i) / real (fcard L) else 0) corpus))"
    unfolding inflow_diff by (rule sum_list_abs)
  also have "map abs (map (\<lambda>(i, L). if p |\<in>| L then (x i - y i) / real (fcard L) else 0) corpus)
               = map (\<lambda>(i, L). if p |\<in>| L then \<bar>x i - y i\<bar> / real (fcard L) else 0) corpus"
    by (induction corpus) auto
  finally show ?thesis .
qed

lemma inflow_l1:
  assumes "distinct ps"
  shows "sum_list (map (\<lambda>p. \<bar>inflow corpus x p - inflow corpus y p\<bar>) ps)
           \<le> l1_dist (map fst corpus) x y"
proof -
  let ?g = "\<lambda>p (il :: 'a \<times> 'a fset).
              if p |\<in>| snd il then \<bar>x (fst il) - y (fst il)\<bar> / real (fcard (snd il)) else 0"
  have "sum_list (map (\<lambda>p. \<bar>inflow corpus x p - inflow corpus y p\<bar>) ps)
          \<le> sum_list (map (\<lambda>p. sum_list (map (?g p) corpus)) ps)"
  proof (rule sum_list_mono)
    fix p
    have "(\<lambda>(i, L). if p |\<in>| L then \<bar>x i - y i\<bar> / real (fcard L) else 0) = ?g p"
      by (auto simp: fun_eq_iff)
    then show "\<bar>inflow corpus x p - inflow corpus y p\<bar> \<le> sum_list (map (?g p) corpus)"
      using inflow_diff_abs [of corpus x p y] by simp
  qed
  also have "\<dots> = sum_list (map (\<lambda>il. sum_list (map (\<lambda>p. ?g p il) ps)) corpus)"
    by (rule sum_list_swap)
  also have "\<dots> \<le> sum_list (map (\<lambda>il. \<bar>x (fst il) - y (fst il)\<bar>) corpus)"
  proof (rule sum_list_mono)
    fix il
    show "sum_list (map (\<lambda>p. ?g p il) ps) \<le> \<bar>x (fst il) - y (fst il)\<bar>"
      by (rule share_le [OF assms]) simp
  qed
  also have "\<dots> = l1_dist (map fst corpus) x y"
    by (simp add: l1_dist_def comp_def)
  finally show ?thesis .
qed

lemma next_rank_contracts:
  assumes "dict_keys_ok corpus" and "0 \<le> d"
  shows "l1_dist (map fst corpus) (rank_at (next_rank corpus d r)) (rank_at (next_rank corpus d s))
           \<le> d * l1_dist (map fst corpus) (rank_at r) (rank_at s)"
proof -
  let ?ks = "map fst corpus"
  have "l1_dist ?ks (rank_at (next_rank corpus d r)) (rank_at (next_rank corpus d s))
          = sum_list (map (\<lambda>p. d * \<bar>inflow corpus (rank_at r) p - inflow corpus (rank_at s) p\<bar>) ?ks)"
    unfolding l1_dist_def
  proof (rule arg_cong [where f = sum_list], rule map_cong [OF refl])
    fix p assume p: "p \<in> set ?ks"
    have "rank_at (next_rank corpus d r) p - rank_at (next_rank corpus d s) p
            = d * (inflow corpus (rank_at r) p - inflow corpus (rank_at s) p)"
      by (simp add: rank_at_next_rank [OF p] algebra_simps)
    then show "\<bar>rank_at (next_rank corpus d r) p - rank_at (next_rank corpus d s) p\<bar>
                 = d * \<bar>inflow corpus (rank_at r) p - inflow corpus (rank_at s) p\<bar>"
      using assms(2) by (simp add: abs_mult)
  qed
  also have "\<dots> = d * sum_list (map (\<lambda>p. \<bar>inflow corpus (rank_at r) p - inflow corpus (rank_at s) p\<bar>) ?ks)"
    by (rule sum_list_const_mult)
  also have "\<dots> \<le> d * l1_dist ?ks (rank_at r) (rank_at s)"
    using assms by (intro mult_left_mono inflow_l1) (simp_all add: dict_keys_ok_def)
  finally show ?thesis .
qed

lemma step_decay:
  assumes "dict_keys_ok corpus" and "0 \<le> d"
  shows "l1_dist (map fst corpus)
           (rank_at ((next_rank corpus d ^^ Suc k) r)) (rank_at ((next_rank corpus d ^^ k) r))
         \<le> d ^ k * l1_dist (map fst corpus) (rank_at (next_rank corpus d r)) (rank_at r)"
proof (induction k)
  case 0
  then show ?case by simp
next
  case (Suc k)
  have "l1_dist (map fst corpus)
           (rank_at ((next_rank corpus d ^^ Suc (Suc k)) r)) (rank_at ((next_rank corpus d ^^ Suc k) r))
         \<le> d * l1_dist (map fst corpus)
           (rank_at ((next_rank corpus d ^^ Suc k) r)) (rank_at ((next_rank corpus d ^^ k) r))"
    using next_rank_contracts [OF assms] by simp
  also have "\<dots> \<le> d * (d ^ k * l1_dist (map fst corpus) (rank_at (next_rank corpus d r)) (rank_at r))"
    using Suc assms(2) by (intro mult_left_mono)
  finally show ?case by (simp add: mult.assoc)
qed

lemma l1_dist_nonneg: "0 \<le> l1_dist ps x y"
  unfolding l1_dist_def by (rule sum_list_nonneg) auto

lemma entry_le_l1_dist: "p \<in> set ps \<Longrightarrow> \<bar>x p - y p\<bar> \<le> l1_dist ps x y"
  unfolding l1_dist_def by (rule member_le_sum_list) auto

lemma small_l1_close_enough:
  "l1_dist ps (rank_at new) (rank_at old) < 0.001 \<Longrightarrow> close_enough ps new old"
  unfolding close_enough_def list_all_iff
  using entry_le_l1_dist [of _ ps "rank_at new" "rank_at old"] by fastforce

lemma eventually_close:
  assumes "dict_keys_ok corpus" and "0 \<le> d" and "d < 1"
  shows "\<exists>k. close_enough (map fst corpus)
                (next_rank corpus d ((next_rank corpus d ^^ k) r)) ((next_rank corpus d ^^ k) r)"
proof -
  define D where "D = l1_dist (map fst corpus) (rank_at (next_rank corpus d r)) (rank_at r)"
  have D0: "0 \<le> D" unfolding D_def by (rule l1_dist_nonneg)
  then have "0 < 0.001 / (D + 1)" by simp
  from real_arch_pow_inv [OF this assms(3)] obtain k where k: "d ^ k < 0.001 / (D + 1)" by blast
  have "0 < D + 1" using D0 by simp
  from k have "d ^ k * (D + 1) < 0.001"
    unfolding pos_less_divide_eq [OF \<open>0 < D + 1\<close>] .
  moreover have "d ^ k * D \<le> d ^ k * (D + 1)" using assms(2) by (intro mult_left_mono) simp_all
  ultimately have "d ^ k * D < 0.001" by linarith
  with step_decay [OF assms(1,2), of k r]
  have "l1_dist (map fst corpus)
           (rank_at ((next_rank corpus d ^^ Suc k) r)) (rank_at ((next_rank corpus d ^^ k) r)) < 0.001"
    unfolding D_def by linarith
  then have "close_enough (map fst corpus)
               ((next_rank corpus d ^^ Suc k) r) ((next_rank corpus d ^^ k) r)"
    by (rule small_l1_close_enough)
  then show ?thesis by auto
qed

subsection \<open>Termination in exact arithmetic\<close>

lemma iterate_loop_reaches:
  assumes ok: "dict_keys_ok corpus"
  shows "map fst r = map fst corpus \<Longrightarrow>
     close_enough (map fst corpus)
       (next_rank corpus d ((next_rank corpus d ^^ k) r)) ((next_rank corpus d ^^ k) r) \<Longrightarrow>
     \<exists>j\<le>k. iterate_loop corpus d r = Some (Inr ((next_rank corpus d ^^ j) r))"
proof (induction k arbitrary: r)
  case 0
  then show ?case by (simp add: iterate_loop_unfold [OF ok])
next
  case (Suc k)
  show ?case
  proof (cases "close_enough (map fst corpus) (next_rank corpus d r) r")
    case True
    then have "iterate_loop corpus d r = Some (Inr ((next_rank corpus d ^^ 0) r))"
      by (simp add: iterate_loop_unfold [OF ok Suc.prems(1)])
    then show ?thesis by blast
  next
    case False
    have keys: "map fst (next_rank corpus d r) = map fst corpus" by (rule keys_next_rank)
    have pw: "(next_rank corpus d ^^ Suc k) r = (next_rank corpus d ^^ k) (next_rank corpus d r)"
      by (simp add: funpow_swap1)
    from Suc.prems(2) have
      "close_enough (map fst corpus)
         (next_rank corpus d ((next_rank corpus d ^^ k) (next_rank corpus d r)))
         ((next_rank corpus d ^^ k) (next_rank corpus d r))"
      unfolding pw .
    from Suc.IH [OF keys this] obtain j where j: "j \<le> k"
      and "iterate_loop corpus d (next_rank corpus d r) =
             Some (Inr ((next_rank corpus d ^^ j) (next_rank corpus d r)))" by blast
    then have "iterate_loop corpus d r = Some (Inr ((next_rank corpus d ^^ Suc j) r))"
      using False by (simp add: iterate_loop_unfold [OF ok Suc.prems(1)] funpow_swap1)
    with j show ?thesis by (metis Suc_le_mono)
  qed
qed

text \<open>
  In exact arithmetic one pass shrinks the sum of the absolute changes by the factor \<open>d\<close>,
  so for \<open>0 \<le> d < 1\<close> some pass passes the test and the loop returns. This is the
  argument of the specification. It is a statement about the real numbers; the code
  computes with doubles, for which the next section shows the opposite.
\<close>

lemma exact_iterate_terminates:
  assumes "dict_keys_ok corpus" and "0 \<le> d" and "d < 1"
  shows "\<exists>r new. iterate_pagerank corpus d = Some (Inr r) \<and>
           new_Pge_Rnk corpus d r = Inr new \<and>
           converged new r (map fst corpus) = Inr True"
proof -
  from eventually_close [OF assms] obtain k where
    "close_enough (map fst corpus)
       (next_rank corpus d ((next_rank corpus d ^^ k) (initial_rank corpus)))
       ((next_rank corpus d ^^ k) (initial_rank corpus))" by blast
  from iterate_loop_reaches [OF assms(1) keys_initial_rank this]
  obtain r where r: "iterate_loop corpus d (initial_rank corpus) = Some (Inr r)" by blast
  from iterate_loop_stops_converged [OF r] r show ?thesis
    by (simp add: iterate_pagerank_def)
qed

section \<open>\<^verbatim>\<open>iterate_pagerank\<close> in double precision\<close>

subsection \<open>The roundings of two passes\<close>

text \<open>
  The damping factor is \<open>d = 1 - 2 ^ (-53)\<close>, the largest double below \<open>1\<close>. The lemmas
  evaluate \<open>f64\<close> at the exact results that arise in two passes over the graph \<open>star\<close>.
\<close>

lemma f64_0: "f64 0 = 0"
  by (simp add: f64_def)

lemma f64_1: "f64 (1) = 1"
  by code_simp

lemma f64_2: "f64 2 = 2"
  by code_simp

lemma f64_3: "f64 (3) = 3"
  by code_simp

lemma f64_4: "f64 (4) = 4"
  by code_simp

lemma f64_quarter: "f64 (1 / 4) = 1 / 4"
  by code_simp

lemma f64_half: "f64 (1 / 2) = 1 / 2"
  by code_simp

lemma f64_neg_half: "f64 (- (1 / 2)) = - (1 / 2)"
  by code_simp

lemma f64_tolerance: "f64 (1 / 1000) = 1152921504606847 / 1152921504606846976"
  by code_simp

lemma f64_one_minus_d: "f64 (1 / 9007199254740992) = 1 / 9007199254740992"
  by code_simp

lemma f64_base: "f64 (1 / 36028797018963968) = 1 / 36028797018963968"
  by code_simp

lemma f64_d_quarter: "f64 (9007199254740991 / 36028797018963968) = 9007199254740991 / 36028797018963968"
  by code_simp

lemma f64_hub_2: "f64 (18014398509481983 / 36028797018963968) = 1 / 2"
  by code_simp

lemma f64_hub_3: "f64 (27021597764222975 / 36028797018963968) = 3 / 4"
  by code_simp

lemma f64_twelfth: "f64 (1 / 12) = 6004799503160661 / 72057594037927936"
  by code_simp

lemma f64_d_twelfth: "f64 (54086425609737778789993415355051 / 649037107316853453566312041152512) = 1501199875790165 / 18014398509481984"
  by code_simp

lemma f64_leaf: "f64 (3002399751580331 / 36028797018963968) = 3002399751580331 / 36028797018963968"
  by code_simp

lemma f64_d_leaf: "f64 (27043212804868893898596335048021 / 324518553658426726783156020576256) = 6004799503160661 / 72057594037927936"
  by code_simp

lemma f64_back_1: "f64 (6004799503160663 / 72057594037927936) = 6004799503160663 / 72057594037927936"
  by code_simp

lemma f64_back_2: "f64 (3002399751580331 / 18014398509481984) = 3002399751580331 / 18014398509481984"
  by code_simp

lemma f64_back_3: "f64 (18014398509481985 / 72057594037927936) = 1 / 4"
  by code_simp

lemmas f64_star =
  f64_1 f64_3 f64_4 f64_quarter f64_half f64_neg_half f64_tolerance f64_one_minus_d f64_base
  f64_d_quarter f64_hub_2 f64_hub_3 f64_twelfth f64_d_twelfth f64_leaf f64_d_leaf
  f64_back_1 f64_back_2 f64_back_3

subsection \<open>A run that returns\<close>

text \<open>
  On two pages that link to each other, with the double nearest to \<open>0.85\<close> as damping
  factor, the first pass leaves both ranks at \<open>1/2\<close> and the loop returns them.
\<close>

lemma f64_85_one_minus_d: "f64 (1351079888211149 / 9007199254740992) = 1351079888211149 / 9007199254740992"
  by code_simp

lemma f64_85_base: "f64 (1351079888211149 / 18014398509481984) = 1351079888211149 / 18014398509481984"
  by code_simp

lemma f64_85_d_half: "f64 (7656119366529843 / 18014398509481984) = 7656119366529843 / 18014398509481984"
  by code_simp

lemma iterate_f64_two_cycle:
  "iterate_pagerank_f64 [(''A'', {|''B''|}), (''B'', {|''A''|})] (7656119366529843 / 9007199254740992)
     = Some (Inr [(''A'', 1 / 2), (''B'', 1 / 2)])"
  unfolding iterate_pagerank_f64_def
  by (subst iterate_loop_f64.simps)
     (simp add: initial_rank_f64_def new_Pge_Rnk_f64_def dict_get_def fcard_finsert_if fcard_fempty
        f64_0 f64_1 f64_2 f64_half f64_tolerance f64_85_one_minus_d f64_85_base f64_85_d_half)

subsection \<open>A run that never returns\<close>

text \<open>
  On \<open>star\<close> the first pass takes the ranks \<open>1/4\<close> to \<open>3/4\<close> for the hub and to the double next
  to \<open>1/12\<close> for the other pages; the second pass takes these back to \<open>1/4\<close> for every page,
  exactly. In both passes the rank of the hub moves by \<open>1/2\<close>, so the test fails.
\<close>

lemma star_initial:
  "initial_rank_f64 star = [(''H'', 1 / 4), (''A'', 1 / 4), (''B'', 1 / 4), (''C'', 1 / 4)]"
  by (simp add: initial_rank_f64_def star_def f64_star)

lemma star_pass_1:
  "new_Pge_Rnk_f64 star (1 - 1 / 2 ^ 53) [(''H'', 1 / 4), (''A'', 1 / 4), (''B'', 1 / 4), (''C'', 1 / 4)]
     = Inr [(''H'', 3 / 4), (''A'', 3002399751580331 / 36028797018963968),
            (''B'', 3002399751580331 / 36028797018963968),
            (''C'', 3002399751580331 / 36028797018963968)]"
  by (simp add: new_Pge_Rnk_f64_def star_def dict_get_def fcard_finsert_if fcard_fempty f64_star)

lemma star_pass_2:
  "new_Pge_Rnk_f64 star (1 - 1 / 2 ^ 53)
     [(''H'', 3 / 4), (''A'', 3002399751580331 / 36028797018963968),
      (''B'', 3002399751580331 / 36028797018963968),
      (''C'', 3002399751580331 / 36028797018963968)]
     = Inr [(''H'', 1 / 4), (''A'', 1 / 4), (''B'', 1 / 4), (''C'', 1 / 4)]"
  by (simp add: new_Pge_Rnk_f64_def star_def dict_get_def fcard_finsert_if fcard_fempty f64_star)

lemma star_test_1:
  "converged_f64
     [(''H'', 3 / 4), (''A'', 3002399751580331 / 36028797018963968),
      (''B'', 3002399751580331 / 36028797018963968),
      (''C'', 3002399751580331 / 36028797018963968)]
     [(''H'', 1 / 4), (''A'', 1 / 4), (''B'', 1 / 4), (''C'', 1 / 4)] (map fst star) = Inr False"
  by (simp add: star_def dict_get_def f64_star)

lemma star_test_2:
  "converged_f64
     [(''H'', 1 / 4), (''A'', 1 / 4), (''B'', 1 / 4), (''C'', 1 / 4)]
     [(''H'', 3 / 4), (''A'', 3002399751580331 / 36028797018963968),
      (''B'', 3002399751580331 / 36028797018963968),
      (''C'', 3002399751580331 / 36028797018963968)] (map fst star) = Inr False"
  by (simp add: star_def dict_get_def f64_star)

lemma star_loop_never_returns:
  assumes "iterate_loop_f64 c d pr = Some res"
  shows "\<not> (c = star \<and> d = 1 - 1 / 2 ^ 53 \<and>
            (pr = [(''H'', 1 / 4), (''A'', 1 / 4), (''B'', 1 / 4), (''C'', 1 / 4)] \<or>
             pr = [(''H'', 3 / 4), (''A'', 3002399751580331 / 36028797018963968),
                   (''B'', 3002399751580331 / 36028797018963968),
                   (''C'', 3002399751580331 / 36028797018963968)]))"
proof (rule iterate_loop_f64.raw_induct
    [where P = "\<lambda>c d pr res. \<not> (c = star \<and> d = 1 - 1 / 2 ^ 53 \<and>
            (pr = [(''H'', 1 / 4), (''A'', 1 / 4), (''B'', 1 / 4), (''C'', 1 / 4)] \<or>
             pr = [(''H'', 3 / 4), (''A'', 3002399751580331 / 36028797018963968),
                   (''B'', 3002399751580331 / 36028797018963968),
                   (''C'', 3002399751580331 / 36028797018963968)]))",
      OF _ assms])
  let ?r0 = "[(''H'', 1 / 4), (''A'', 1 / 4), (''B'', 1 / 4), (''C'', 1 / 4 :: real)]"
  let ?r1 = "[(''H'', 3 / 4), (''A'', 3002399751580331 / 36028797018963968),
              (''B'', 3002399751580331 / 36028797018963968),
              (''C'', 3002399751580331 / 36028797018963968 :: real)]"
  fix loop :: "string corpus \<Rightarrow> real \<Rightarrow> string ranking \<Rightarrow> (error + string ranking) option"
  fix c d pr res
  assume IH: "\<And>c d pr y. loop c d pr = Some y \<Longrightarrow>
                \<not> (c = star \<and> d = 1 - 1 / 2 ^ 53 \<and> (pr = ?r0 \<or> pr = ?r1))"
    and body: "(case new_Pge_Rnk_f64 c d pr of
                  Inl e \<Rightarrow> Some (Inl e)
                | Inr new \<Rightarrow>
                    (case converged_f64 new pr (map fst c) of
                       Inl e \<Rightarrow> Some (Inl e)
                     | Inr stop \<Rightarrow> if stop then Some (Inr pr) else loop c d new)) = Some res"
  show "\<not> (c = star \<and> d = 1 - 1 / 2 ^ 53 \<and> (pr = ?r0 \<or> pr = ?r1))"
  proof
    assume A: "c = star \<and> d = 1 - 1 / 2 ^ 53 \<and> (pr = ?r0 \<or> pr = ?r1)"
    then consider "pr = ?r0" | "pr = ?r1" by blast
    then show False
    proof cases
      case 1
      have b1: "new_Pge_Rnk_f64 c d pr = Inr ?r1"
        using star_pass_1 by (simp add: A 1)
      have b2: "converged_f64 ?r1 pr (map fst c) = Inr False"
        using star_test_1 by (simp add: A 1)
      from body have "loop c d ?r1 = Some res"
        by (simp only: b1 b2 sum.case if_False)
      from IH [OF this] A show False by blast
    next
      case 2
      have b1: "new_Pge_Rnk_f64 c d pr = Inr ?r0"
        using star_pass_2 by (simp add: A 2)
      have b2: "converged_f64 ?r0 pr (map fst c) = Inr False"
        using star_test_2 by (simp add: A 2)
      from body have "loop c d ?r0 = Some res"
        by (simp only: b1 b2 sum.case if_False)
      from IH [OF this] A show False by blast
    qed
  qed
qed

text \<open>
  Claim C9 says that \<^verbatim>\<open>iterate_pagerank\<close> ends for every graph that satisfies the invariants
  and every damping factor \<open>0 \<le> d < 1\<close>. On the graph \<open>H \<rightarrow> {A, B, C}\<close>, \<open>A \<rightarrow> {H}\<close>,
  \<open>B \<rightarrow> {H}\<close>, \<open>C \<rightarrow> {H}\<close>, which satisfies them, with the damping factor \<open>1 - 2 ^ (-53)\<close>
  (\<^verbatim>\<open>0.9999999999999999\<close>) the ranks alternate between two dictionaries, the test fails
  in every pass, and the loop never returns.
\<close>

theorem iterate_f64_star_never_returns:
  "iterate_pagerank_f64
     [(''H'', {|''A'', ''B'', ''C''|}), (''A'', {|''H''|}), (''B'', {|''H''|}), (''C'', {|''H''|})]
     (1 - 1 / 2 ^ 53) = None"
proof (rule ccontr)
  assume "iterate_pagerank_f64
     [(''H'', {|''A'', ''B'', ''C''|}), (''A'', {|''H''|}), (''B'', {|''H''|}), (''C'', {|''H''|})]
     (1 - 1 / 2 ^ 53) \<noteq> None"
  then obtain res where
    "iterate_loop_f64 star (1 - 1 / 2 ^ 53)
       [(''H'', 1 / 4), (''A'', 1 / 4), (''B'', 1 / 4), (''C'', 1 / 4)] = Some res"
    unfolding iterate_pagerank_f64_def star_def [symmetric] star_initial by blast
  from star_loop_never_returns [OF this] show False by blast
qed

end
